theory Spec2Isabelle
  imports Complex_Main "HOL-Library.Char_ord" "HOL-Library.List_Lexorder" "HOL-Library.Word"
    "HOL-Library.Log_Nat"
begin

unbundle bit_operations_syntax

section \<open>JavaScript values\<close>

text \<open>
  A Number is an IEEE 754 double, given by its 64 bits: the sign, eleven bits of
  exponent, fifty-two bits of fraction. An exponent of all ones makes an infinity (zero
  fraction; \<^verbatim>\<open>JSON.parse("1e400")\<close> is one) or a NaN; the two zeros are
  \<open>0\<close> and \<open>0x8000000000000000\<close>.
\<close>

definition isNaN :: "64 word \<Rightarrow> bool" where
  "isNaN w = (0x7FF0000000000000 < (w AND 0x7FFFFFFFFFFFFFFF))"

definition isFinite :: "64 word \<Rightarrow> bool" where
  "isFinite w = (w AND 0x7FF0000000000000 \<noteq> 0x7FF0000000000000)"

definition isZero :: "64 word \<Rightarrow> bool" where
  "isZero w = (w AND 0x7FFFFFFFFFFFFFFF = 0)"

text \<open>
  The double of an integer, rounded to nearest, ties to even, and to an infinity beyond
  the largest double; it is exact below \<open>2 ^ 53\<close>, so on every time value
  \<^verbatim>\<open>Date.now()\<close> can return.
\<close>

definition double_of_int :: "int \<Rightarrow> 64 word" where
  "double_of_int i =
     (if i = 0 then 0
      else
        let n = nat \<bar>i\<bar>;
            e = floorlog 2 n - 1;
            m = (if e \<le> 52 then n * 2 ^ (52 - e)
                 else
                   let q = n div 2 ^ (e - 52);
                       r = n mod 2 ^ (e - 52);
                       half = 2 ^ (e - 53)
                   in if half < r \<or> (r = half \<and> odd q) then q + 1 else q);
            bits = (1023 + e) * 2 ^ 52 + (m - 2 ^ 52);
            magnitude = (if 2047 * 2 ^ 52 \<le> bits then 2047 * 2 ^ 52 else bits)
        in (if i < 0 then 2 ^ 63 else 0) + word_of_nat magnitude)"

text \<open>
  The values the handlers see: what \<^verbatim>\<open>await _req.json()\<close> can return, plus
  \<^verbatim>\<open>undefined\<close>, the result of reading a property that is not there. An
  object is the list of its own properties, in the order they are enumerated in.
\<close>

datatype jsval =
    JUndefined
  | JNull
  | JBool bool
  | JNum "64 word"
  | JStr string
  | JArr "jsval list"
  | JObj "(string \<times> jsval) list"

datatype exn = SyntaxError | TypeError

text \<open>ToBoolean, as used by \<^verbatim>\<open>!x\<close>, \<^verbatim>\<open>x || y\<close> and \<^verbatim>\<open>if (x)\<close>.\<close>

fun truthy :: "jsval \<Rightarrow> bool" where
  "truthy JUndefined = False"
| "truthy JNull = False"
| "truthy (JBool b) = b"
| "truthy (JNum w) = (\<not> isZero w \<and> \<not> isNaN w)"
| "truthy (JStr s) = (s \<noteq> [])"
| "truthy (JArr _) = True"
| "truthy (JObj _) = True"

fun typeof :: "jsval \<Rightarrow> string" where
  "typeof JUndefined = ''undefined''"
| "typeof JNull = ''object''"
| "typeof (JBool _) = ''boolean''"
| "typeof (JNum _) = ''number''"
| "typeof (JStr _) = ''string''"
| "typeof (JArr _) = ''object''"
| "typeof (JObj _) = ''object''"

text \<open>
  Property access \<^verbatim>\<open>data.name\<close>, for the names the handlers read
  (\<^verbatim>\<open>embed\<close>, \<^verbatim>\<open>creator\<close>), which no built-in prototype defines:
  reading from \<^verbatim>\<open>null\<close> or \<^verbatim>\<open>undefined\<close> throws a TypeError, an
  object yields its own property or \<^verbatim>\<open>undefined\<close>, every other value
  yields \<^verbatim>\<open>undefined\<close>.
\<close>

fun get_prop :: "jsval \<Rightarrow> string \<Rightarrow> exn + jsval" where
  "get_prop JUndefined name = Inl TypeError"
| "get_prop JNull name = Inl TypeError"
| "get_prop (JObj props) name =
     (case map_of props name of None \<Rightarrow> Inr JUndefined | Some v \<Rightarrow> Inr v)"
| "get_prop _ name = Inr JUndefined"

text \<open>\<^verbatim>\<open>a || b\<close>\<close>

definition js_or :: "jsval \<Rightarrow> jsval \<Rightarrow> jsval" where
  "js_or a b = (if truthy a then a else b)"

text \<open>
  \<^verbatim>\<open>JSON.stringify\<close>, in two steps. The first is the standard's
  SerializeJSONProperty, taken on values: a property that is \<^verbatim>\<open>undefined\<close>
  is left out of an object and becomes \<^verbatim>\<open>null\<close> in an array, a number
  that is not finite becomes \<^verbatim>\<open>null\<close>, and minus zero becomes zero. The
  second writes the text of the value that is left; it is the runtime's, and the handlers
  take it as the parameter \<open>render\<close>.
\<close>

fun SerializeJSONProperty :: "jsval \<Rightarrow> jsval option" where
  "SerializeJSONProperty JUndefined = None"
| "SerializeJSONProperty JNull = Some JNull"
| "SerializeJSONProperty (JBool b) = Some (JBool b)"
| "SerializeJSONProperty (JNum w) =
     Some (if \<not> isFinite w then JNull else if isZero w then JNum 0 else JNum w)"
| "SerializeJSONProperty (JStr s) = Some (JStr s)"
| "SerializeJSONProperty (JArr xs) =
     Some (JArr (map (\<lambda>x. case SerializeJSONProperty x of None \<Rightarrow> JNull | Some j \<Rightarrow> j) xs))"
| "SerializeJSONProperty (JObj ps) =
     Some (JObj (concat (map (\<lambda>p. case SerializeJSONProperty (snd p) of
                                      None \<Rightarrow> []
                                    | Some j \<Rightarrow> [(fst p, j)]) ps)))"

definition to_json :: "jsval \<Rightarrow> jsval" where
  "to_json v = (case SerializeJSONProperty v of None \<Rightarrow> JUndefined | Some j \<Rightarrow> j)"

definition JSON_stringify :: "(jsval \<Rightarrow> string) \<Rightarrow> jsval \<Rightarrow> string" where
  "JSON_stringify render v = render (to_json v)"

text \<open>
  A value \<^verbatim>\<open>JSON.stringify\<close> writes as it is: nothing in it is
  \<^verbatim>\<open>undefined\<close>, an infinity, a NaN or minus zero.
\<close>

fun plain :: "jsval \<Rightarrow> bool" where
  "plain JUndefined = False"
| "plain JNull = True"
| "plain (JBool b) = True"
| "plain (JNum w) = (isFinite w \<and> (isZero w \<longrightarrow> w = 0))"
| "plain (JStr s) = True"
| "plain (JArr xs) = list_all plain xs"
| "plain (JObj ps) = list_all (\<lambda>p. plain (snd p)) ps"

definition startsWith :: "string \<Rightarrow> string \<Rightarrow> bool" where
  "startsWith s p = (take (length p) s = p)"

definition endsWith :: "string \<Rightarrow> string \<Rightarrow> bool" where
  "endsWith s p = (length p \<le> length s \<and> drop (length s - length p) s = p)"


section \<open>Data model (main.ts)\<close>

text \<open>
  The object built at line 32 of main.ts:
  \<^verbatim>\<open>{ id, embed: data.embed, creator: data.creator || null, timestamp: Date.now() }\<close>.
  The fields \<^verbatim>\<open>embed\<close> and \<^verbatim>\<open>creator\<close> hold whatever value the request
  carried; \<^verbatim>\<open>timestamp\<close> is epoch milliseconds.
\<close>

record submission =
  id :: string
  embed :: jsval
  creator :: jsval
  timestamp :: int

definition submission_obj :: "submission \<Rightarrow> jsval" where
  "submission_obj sub =
     JObj [(''id'', JStr (id sub)), (''embed'', embed sub),
           (''creator'', creator sub), (''timestamp'', JNum (double_of_int (timestamp sub)))]"

type_synonym bytes = "8 word list"

text \<open>
  A stream created by \<^verbatim>\<open>handleSSE\<close>: its controller (an address in the heap of
  controllers) and the closure variable \<^verbatim>\<open>controllerRef\<close> its callbacks share.
\<close>

record rstream =
  controller :: nat
  controllerRef :: "nat option"

datatype body = Text string | File bytes | Stream rstream

text \<open>
  \<^verbatim>\<open>new Response(body, { status, headers })\<close>; the status is 200 when the
  source gives none, and \<open>headers\<close> are the ones the source passes.
\<close>

record response =
  status :: nat
  headers :: "(string \<times> string) list"
  body :: body

text \<open>
  A request as the handlers use it: \<^verbatim>\<open>req.method\<close> (as \<open>http_method\<close>),
  \<^verbatim>\<open>new URL(req.url).pathname\<close>,
  and the outcome of \<^verbatim>\<open>await req.json()\<close> (a SyntaxError when the body is not
  JSON).
\<close>

record request =
  http_method :: string
  pathname :: string
  json :: "exn + jsval"

text \<open>
  A \<^verbatim>\<open>ReadableStreamDefaultController\<close>: whether its stream is still
  readable, whether the reader the runtime has put on the stream takes the chunks the code
  enqueues, and the chunks enqueued so far. \<^verbatim>\<open>enqueue\<close> throws a TypeError
  when the stream is not readable, and also when the stream is readable and its reader
  refuses the chunk: the server that reads a response body may refuse a chunk that is a
  string rather than bytes. Which readers refuse is the runtime's.
\<close>

record rcontroller =
  readable :: bool
  accepts :: bool
  queue :: "string list"

definition takes :: "rcontroller \<Rightarrow> bool" where
  "takes ctl = (readable ctl \<and> accepts ctl)"

type_synonym key = "string list"

text \<open>
  The state of the server process: the key-value store \<^verbatim>\<open>kv\<close> (entries in
  ascending key order, the order \<^verbatim>\<open>kv.list\<close> yields them in), the writes
  the store takes (it rejects a value over its size limit, and \<^verbatim>\<open>kv.set\<close>
  then throws), the set
  \<^verbatim>\<open>sseClients\<close> in insertion order (the order a JavaScript Set is iterated in),
  the heap of controllers with its allocation counter, and the files
  \<^verbatim>\<open>Deno.readFile\<close> can read.
\<close>

record state =
  kv :: "(key \<times> submission) list"
  kv_accepts :: "key \<Rightarrow> submission \<Rightarrow> bool"
  sseClients :: "nat list"
  heap :: "nat \<Rightarrow> rcontroller"
  next_ctl :: nat
  files :: "string \<Rightarrow> bytes option"


section \<open>The key-value store\<close>

text \<open>\<^verbatim>\<open>kv.set(key, value)\<close>: overwrite the entry of the key, or insert it in key order.\<close>

fun kv_set :: "key \<Rightarrow> 'v \<Rightarrow> (key \<times> 'v) list \<Rightarrow> (key \<times> 'v) list" where
  "kv_set k v [] = [(k, v)]"
| "kv_set k v ((k', v') # rest) =
     (if k = k' then (k, v) # rest
      else if k < k' then (k, v) # (k', v') # rest
      else (k', v') # kv_set k v rest)"

text \<open>
  \<^verbatim>\<open>kv.list({ prefix })\<close>: the entries whose key starts with the prefix and is
  longer than it, in key order.
\<close>

definition kv_list :: "key \<Rightarrow> (key \<times> 'v) list \<Rightarrow> (key \<times> 'v) list" where
  "kv_list p entries =
     filter (\<lambda>e. length p < length (fst e) \<and> take (length p) (fst e) = p) entries"


section \<open>The set of push connections (sse.ts)\<close>

text \<open>\<^verbatim>\<open>Set.prototype.add\<close> and \<^verbatim>\<open>Set.prototype.delete\<close> on the insertion-ordered set.\<close>

definition Set_add :: "'a \<Rightarrow> 'a list \<Rightarrow> 'a list" where
  "Set_add x xs = (if x \<in> set xs then xs else xs @ [x])"

definition Set_delete :: "'a \<Rightarrow> 'a list \<Rightarrow> 'a list" where
  "Set_delete x xs = removeAll x xs"

text \<open>\<^verbatim>\<open>controller.enqueue(chunk)\<close>: the exception thrown, if any, and the heap after.\<close>

definition enqueue :: "nat \<Rightarrow> string \<Rightarrow> (nat \<Rightarrow> rcontroller) \<Rightarrow> exn option \<times> (nat \<Rightarrow> rcontroller)" where
  "enqueue c chunk h =
     (if takes (h c) then (None, h(c := (h c)\<lparr>queue := queue (h c) @ [chunk]\<rparr>))
      else (Some TypeError, h))"

definition frame :: "string \<Rightarrow> string" where
  "frame message = ''data: '' @ message @ [CHR 0x0A, CHR 0x0A]"

text \<open>
  The loop of \<^verbatim>\<open>broadcastNewSketch\<close> over the controllers still to visit. It has
  no \<^verbatim>\<open>try\<close>: the first exception ends it, with the chunks already enqueued
  staying where they are.
\<close>

fun broadcast_loop :: "nat list \<Rightarrow> string \<Rightarrow> (nat \<Rightarrow> rcontroller) \<Rightarrow> exn option \<times> (nat \<Rightarrow> rcontroller)" where
  "broadcast_loop [] message h = (None, h)"
| "broadcast_loop (c # cs) message h =
     (case enqueue c (frame message) h of
        (Some e, h') \<Rightarrow> (Some e, h')
      | (None, h') \<Rightarrow> broadcast_loop cs message h')"

definition broadcastNewSketch :: "string \<Rightarrow> state \<Rightarrow> exn option \<times> state" where
  "broadcastNewSketch message s =
     (case broadcast_loop (sseClients s) message (heap s) of
        (r, h') \<Rightarrow> (r, s\<lparr>heap := h'\<rparr>))"

text \<open>The two callbacks of the stream's underlying source.\<close>

definition start :: "nat \<Rightarrow> state \<Rightarrow> nat option \<times> state" where
  "start ctl s = (Some ctl, s\<lparr>sseClients := Set_add ctl (sseClients s)\<rparr>)"

definition cancel :: "nat option \<Rightarrow> state \<Rightarrow> state" where
  "cancel ref s =
     (case ref of
        None \<Rightarrow> s
      | Some c \<Rightarrow> s\<lparr>sseClients := Set_delete c (sseClients s)\<rparr>)"

text \<open>
  \<^verbatim>\<open>handleSSE\<close>: the stream constructor allocates a fresh controller, in the
  readable state with an empty queue, and calls \<^verbatim>\<open>start\<close> with it before it
  returns. Whether the reader of the new stream takes chunks is as the runtime has it.
\<close>

definition sse_headers :: "(string \<times> string) list" where
  "sse_headers =
     [(''Content-Type'', ''text/event-stream''),
      (''Cache-Control'', ''no-cache''),
      (''Connection'', ''keep-alive'')]"

definition handleSSE :: "state \<Rightarrow> response \<times> state" where
  "handleSSE s =
     (let c = next_ctl s;
          s1 = s\<lparr>heap := (heap s)(c := (heap s c)\<lparr>readable := True, queue := []\<rparr>),
                 next_ctl := Suc c\<rparr>
      in (case start c s1 of
            (ref, s2) \<Rightarrow>
              (\<lparr>status = 200, headers = sse_headers,
                body = Stream \<lparr>controller = c, controllerRef = ref\<rparr>\<rparr>, s2)))"

text \<open>
  What the runtime does when the client of a stream goes away: it cancels the stream.
  Cancelling a stream that is no longer readable does nothing; otherwise the stream is
  closed and the \<^verbatim>\<open>cancel\<close> callback of its source runs.
\<close>

definition stream_cancel :: "rstream \<Rightarrow> state \<Rightarrow> state" where
  "stream_cancel st s =
     (let c = controller st in
      if readable (heap s c)
      then cancel (controllerRef st) (s\<lparr>heap := (heap s)(c := (heap s c)\<lparr>readable := False\<rparr>)\<rparr>)
      else s)"


section \<open>The handlers (main.ts)\<close>

text \<open>
  \<^verbatim>\<open>crypto.randomUUID()\<close> and \<^verbatim>\<open>Date.now()\<close> are the runtime's: a
  call of \<^verbatim>\<open>handleSubmit\<close> takes the values they return to it as \<open>uuid\<close>
  and \<open>now\<close> (integer milliseconds).
\<close>

definition json_headers :: "(string \<times> string) list" where
  "json_headers = [(''Content-Type'', ''application/json'')]"

definition error_response :: "(jsval \<Rightarrow> string) \<Rightarrow> string \<Rightarrow> response" where
  "error_response render msg =
     \<lparr>status = 400, headers = json_headers,
      body = Text (JSON_stringify render (JObj [(''error'', JStr msg)]))\<rparr>"

text \<open>
  \<^verbatim>\<open>handleSubmit\<close> (lines 21 to 46; lines 127 to 152 are the same text). Every
  exception inside the \<^verbatim>\<open>try\<close> (of \<^verbatim>\<open>_req.json()\<close>, of reading a
  property of \<^verbatim>\<open>null\<close>, of \<^verbatim>\<open>kv.set\<close>, of an
  \<^verbatim>\<open>enqueue\<close> of the broadcast) ends in the \<^verbatim>\<open>catch\<close>, which
  answers 400; what was done to the state before the exception stays done.
\<close>

definition handleSubmit ::
  "(jsval \<Rightarrow> string) \<Rightarrow> string \<Rightarrow> int \<Rightarrow> request \<Rightarrow> state \<Rightarrow> response \<times> state" where
  "handleSubmit render uuid now req s =
     (case json req of
        Inl e \<Rightarrow> (error_response render ''Invalid JSON or server error.'', s)
      | Inr data \<Rightarrow>
          (case get_prop data ''embed'' of
             Inl e \<Rightarrow> (error_response render ''Invalid JSON or server error.'', s)
           | Inr data_embed \<Rightarrow>
               if \<not> truthy data_embed \<or> typeof data_embed \<noteq> ''string''
               then (error_response render ''Missing or invalid 'embed' field.'', s)
               else
                 (case get_prop data ''creator'' of
                    Inl e \<Rightarrow> (error_response render ''Invalid JSON or server error.'', s)
                  | Inr data_creator \<Rightarrow>
                      let submission =
                            \<lparr>id = uuid, embed = data_embed,
                             creator = js_or data_creator JNull, timestamp = now\<rparr>
                      in if \<not> kv_accepts s [''iframe'', uuid] submission
                         then (error_response render ''Invalid JSON or server error.'', s)
                         else
                           let s1 = s\<lparr>kv := kv_set [''iframe'', uuid] submission (kv s)\<rparr>
                           in (case broadcastNewSketch
                                       (JSON_stringify render (submission_obj submission)) s1 of
                                 (Some e, s2) \<Rightarrow>
                                   (error_response render ''Invalid JSON or server error.'', s2)
                               | (None, s2) \<Rightarrow>
                                   (\<lparr>status = 201, headers = json_headers,
                                     body = Text (JSON_stringify render
                                                    (submission_obj submission))\<rparr>, s2)))))"

text \<open>
  The loop both variants of \<^verbatim>\<open>handleList\<close> share:
  \<^verbatim>\<open>for await (const entry of kv.list({ prefix: ["iframe"] })) if (entry.value) submissions.push(entry.value)\<close>.
\<close>

definition list_submissions :: "state \<Rightarrow> submission list" where
  "list_submissions s =
     map snd (filter (\<lambda>entry. truthy (submission_obj (snd entry))) (kv_list [''iframe''] (kv s)))"

text \<open>
  \<^verbatim>\<open>Array.prototype.sort(compare)\<close>: a stable sort; \<open>x\<close> stays before \<open>y\<close>
  unless \<open>compare x y\<close> is positive.
\<close>

fun insert_by :: "('a \<Rightarrow> 'a \<Rightarrow> int) \<Rightarrow> 'a \<Rightarrow> 'a list \<Rightarrow> 'a list" where
  "insert_by compare x [] = [x]"
| "insert_by compare x (y # ys) =
     (if compare x y \<le> 0 then x # y # ys else y # insert_by compare x ys)"

definition sort_by :: "('a \<Rightarrow> 'a \<Rightarrow> int) \<Rightarrow> 'a list \<Rightarrow> 'a list" where
  "sort_by compare xs = foldr (insert_by compare) xs []"

text \<open>The array the first \<^verbatim>\<open>handleList\<close> (lines 52 to 59) serialises.\<close>

definition sorted_submissions :: "state \<Rightarrow> submission list" where
  "sorted_submissions s = sort_by (\<lambda>a b. timestamp b - timestamp a) (list_submissions s)"

definition handleList :: "(jsval \<Rightarrow> string) \<Rightarrow> state \<Rightarrow> response" where
  "handleList render s =
     \<lparr>status = 200, headers = json_headers,
      body = Text (JSON_stringify render (JArr (map submission_obj (sorted_submissions s))))\<rparr>"

text \<open>The second \<^verbatim>\<open>handleList\<close> (lines 158 to 164), which has no sort.\<close>

definition handleList_v2 :: "(jsval \<Rightarrow> string) \<Rightarrow> state \<Rightarrow> response" where
  "handleList_v2 render s =
     \<lparr>status = 200, headers = json_headers,
      body = Text (JSON_stringify render (JArr (map submission_obj (list_submissions s))))\<rparr>"

definition not_found :: response where
  "not_found = \<lparr>status = 404, headers = [], body = Text ''Not Found''\<rparr>"

definition serveIndex :: "state \<Rightarrow> response" where
  "serveIndex s =
     (case files s ''./index.html'' of
        Some file \<Rightarrow> \<lparr>status = 200, headers = [(''Content-Type'', ''text/html'')], body = File file\<rparr>
      | None \<Rightarrow> not_found)"

definition serveStatic :: "request \<Rightarrow> state \<Rightarrow> response" where
  "serveStatic req s =
     (let filePath = ''.'' @ pathname req in
      case files s filePath of
        Some file \<Rightarrow>
          let contentType = (if endsWith (pathname req) ''.css'' then ''text/css'' else ''text/plain'')
          in \<lparr>status = 200, headers = [(''Content-Type'', contentType)], body = File file\<rparr>
      | None \<Rightarrow> not_found)"

text \<open>
  The router (lines 98 to 111). The second copy of the file (lines 185 to 192) has the
  same router without the \<^verbatim>\<open>/static/\<close> route.
\<close>

definition handler ::
  "(jsval \<Rightarrow> string) \<Rightarrow> string \<Rightarrow> int \<Rightarrow> request \<Rightarrow> state \<Rightarrow> response \<times> state" where
  "handler render uuid now req s =
     (if pathname req = ''/submit'' \<and> http_method req = ''POST'' then handleSubmit render uuid now req s
      else if pathname req = ''/sketches'' \<and> http_method req = ''GET'' then (handleList render s, s)
      else if pathname req = ''/events'' \<and> http_method req = ''GET'' then handleSSE s
      else if startsWith (pathname req) ''/static/'' then (serveStatic req s, s)
      else if pathname req = ''/'' then (serveIndex s, s)
      else (not_found, s))"


section \<open>Runs of the server\<close>

text \<open>
  What happens to the process: a request arrives (with the values
  \<^verbatim>\<open>crypto.randomUUID()\<close> and \<^verbatim>\<open>Date.now()\<close> would return while it is
  handled), or the client of a stream goes away.
\<close>

datatype event = Request string int request | Disconnect rstream

fun step :: "(jsval \<Rightarrow> string) \<Rightarrow> state \<Rightarrow> event \<Rightarrow> state" where
  "step render s (Request uuid now req) = snd (handler render uuid now req s)"
| "step render s (Disconnect st) = stream_cancel st s"

definition run :: "(jsval \<Rightarrow> string) \<Rightarrow> state \<Rightarrow> event list \<Rightarrow> state" where
  "run render s evs = foldl (step render) s evs"

text \<open>
  The registry is in order when every registered controller has a readable stream and
  was allocated by a stream constructor.
\<close>

definition registry_ok :: "state \<Rightarrow> bool" where
  "registry_ok s = (\<forall>c\<in>set (sseClients s). readable (heap s c) \<and> c < next_ctl s)"

text \<open>
  A sequence of \<^verbatim>\<open>POST /submit\<close> requests, each given by the UUID and the time
  the runtime hands to its call and by its parsed body; the responses, in order, and the
  state after the last.
\<close>

definition post_submit :: "jsval \<Rightarrow> request" where
  "post_submit data = \<lparr>http_method = ''POST'', pathname = ''/submit'', json = Inr data\<rparr>"

fun submit_all ::
  "(jsval \<Rightarrow> string) \<Rightarrow> (string \<times> int \<times> jsval) list \<Rightarrow> state \<Rightarrow> response list \<times> state" where
  "submit_all render [] s = ([], s)"
| "submit_all render ((uuid, now, data) # rest) s =
     (case handleSubmit render uuid now (post_submit data) s of
        (r, s1) \<Rightarrow>
          (case submit_all render rest s1 of
             (rs, s2) \<Rightarrow> (r # rs, s2)))"

text \<open>The record a submission asks to store: the object of line 32, read off its body.\<close>

definition field :: "jsval \<Rightarrow> string \<Rightarrow> jsval" where
  "field data name = (case get_prop data name of Inl e \<Rightarrow> JUndefined | Inr v \<Rightarrow> v)"

fun submitted :: "string \<times> int \<times> jsval \<Rightarrow> submission" where
  "submitted (uuid, now, data) =
     \<lparr>id = uuid, embed = field data ''embed'',
      creator = js_or (field data ''creator'') JNull, timestamp = now\<rparr>"

text \<open>
  A process that has just started, with an empty store that takes every write, no files,
  and a runtime whose readers take every chunk.
\<close>

definition init_state :: state where
  "init_state =
     \<lparr>kv = [], kv_accepts = (\<lambda>k v. True), sseClients = [],
      heap = (\<lambda>c. \<lparr>readable = False, accepts = True, queue = []\<rparr>),
      next_ctl = 0, files = (\<lambda>path. None)\<rparr>"


section \<open>Example inputs\<close>

text \<open>
  A stand-in for the text of a JSON value in the examples (the theorems hold for every
  \<open>render\<close>): the properties of an object, each with its value in brief.
\<close>

definition brief :: "jsval \<Rightarrow> string" where
  "brief v =
     (case v of
        JUndefined \<Rightarrow> ''undefined''
      | JNull \<Rightarrow> ''null''
      | JBool b \<Rightarrow> (if b then ''true'' else ''false'')
      | JNum w \<Rightarrow> ''<number>''
      | JStr s \<Rightarrow> s
      | JArr xs \<Rightarrow> ''[...]''
      | JObj ps \<Rightarrow> ''{...}'')"

definition example_render :: "jsval \<Rightarrow> string" where
  "example_render v =
     (case v of
        JObj ps \<Rightarrow> concat (map (\<lambda>p. fst p @ ''='' @ brief (snd p) @ '';'') ps)
      | _ \<Rightarrow> brief v)"

text \<open>
  Three registered connections with readable streams, the second of which has a reader
  that refuses the chunk: the state in which an \<^verbatim>\<open>enqueue\<close> fails in the
  middle of a broadcast. It is the state after three \<^verbatim>\<open>GET /events\<close> on
  \<open>stalling_runtime\<close>.
\<close>

definition stalling_runtime :: state where
  "stalling_runtime =
     init_state\<lparr>heap := (\<lambda>c. \<lparr>readable = False, accepts = (c \<noteq> 1), queue = []\<rparr>)\<rparr>"

definition stalled_state :: state where
  "stalled_state =
     init_state\<lparr>sseClients := [0, 1, 2],
                heap := (\<lambda>c. \<lparr>readable = (c < 3), accepts = (c \<noteq> 1), queue = []\<rparr>),
                next_ctl := 3\<rparr>"


text \<open>
  Two submissions, a minute apart, with the UUIDs the runtime drew for them: the earlier
  one drew the smaller UUID.
\<close>

definition two_sketches :: "(string \<times> int \<times> jsval) list" where
  "two_sketches =
     [(''1b4e28ba-2fa1-41d2-883f-0016d3cca427'', 1739500000000,
       JObj [(''embed'', JStr ''<iframe src=a></iframe>'')]),
      (''6fa459ea-ee8a-4ca4-894e-db77e160355e'', 1739500060000,
       JObj [(''embed'', JStr ''<iframe src=b></iframe>''), (''creator'', JStr ''pim'')])]"

definition sketch_body :: jsval where
  "sketch_body = JObj [(''embed'', JStr ''<iframe src=x></iframe>''), (''creator'', JStr ''pim'')]"

text \<open>
  The body \<^verbatim>\<open>{"embed": "<iframe src=x></iframe>", "creator": 1e400}\<close> as
  \<^verbatim>\<open>JSON.parse\<close> returns it: the number is plus infinity.
\<close>

definition infinite_creator_body :: jsval where
  "infinite_creator_body =
     JObj [(''embed'', JStr ''<iframe src=x></iframe>''), (''creator'', JNum 0x7FF0000000000000)]"

section \<open>The broadcast loop\<close>

lemma broadcast_loop_all_take:
  "distinct cs \<Longrightarrow> \<forall>c\<in>set cs. takes (h c) \<Longrightarrow>
   broadcast_loop cs m h =
     (None, \<lambda>x. if x \<in> set cs then (h x)\<lparr>queue := queue (h x) @ [frame m]\<rparr> else h x)"
proof (induction cs arbitrary: h)
  case Nil
  then show ?case by simp
next
  case (Cons c cs)
  let ?h1 = "h(c := (h c)\<lparr>queue := queue (h c) @ [frame m]\<rparr>)"
  have e: "enqueue c (frame m) h = (None, ?h1)"
    using Cons.prems by (simp add: enqueue_def)
  have d: "distinct cs" and n: "c \<notin> set cs"
    using Cons.prems by auto
  have r: "\<forall>x\<in>set cs. takes (?h1 x)"
    using Cons.prems by (simp add: takes_def)
  have "broadcast_loop (c # cs) m h = broadcast_loop cs m ?h1"
    using e by simp
  also have "\<dots> = (None, \<lambda>x. if x \<in> set cs then (?h1 x)\<lparr>queue := queue (?h1 x) @ [frame m]\<rparr> else ?h1 x)"
    using Cons.IH [OF d r] .
  also have "(\<lambda>x. if x \<in> set cs then (?h1 x)\<lparr>queue := queue (?h1 x) @ [frame m]\<rparr> else ?h1 x)
      = (\<lambda>x. if x \<in> set (c # cs) then (h x)\<lparr>queue := queue (h x) @ [frame m]\<rparr> else h x)"
    using n by (auto simp add: fun_eq_iff)
  finally show ?case .
qed

lemma broadcast_loop_first_failure:
  "distinct pre \<Longrightarrow> \<forall>p\<in>set pre. takes (h p) \<Longrightarrow> c \<notin> set pre \<Longrightarrow> \<not> takes (h c) \<Longrightarrow>
   broadcast_loop (pre @ c # post) m h =
     (Some TypeError, \<lambda>x. if x \<in> set pre then (h x)\<lparr>queue := queue (h x) @ [frame m]\<rparr> else h x)"
proof (induction pre arbitrary: h)
  case Nil
  then show ?case by (simp add: enqueue_def)
next
  case (Cons p pre)
  let ?h1 = "h(p := (h p)\<lparr>queue := queue (h p) @ [frame m]\<rparr>)"
  have e: "enqueue p (frame m) h = (None, ?h1)"
    using Cons.prems by (simp add: enqueue_def)
  have d: "distinct pre" and n: "p \<notin> set pre" and c: "c \<notin> set pre" and cp: "c \<noteq> p"
    using Cons.prems by auto
  have r: "\<forall>x\<in>set pre. takes (?h1 x)"
    using Cons.prems by (simp add: takes_def)
  have nr: "\<not> takes (?h1 c)"
    using Cons.prems cp by simp
  have "broadcast_loop ((p # pre) @ c # post) m h = broadcast_loop (pre @ c # post) m ?h1"
    using e by simp
  also have "\<dots> = (Some TypeError, \<lambda>x. if x \<in> set pre then (?h1 x)\<lparr>queue := queue (?h1 x) @ [frame m]\<rparr> else ?h1 x)"
    using Cons.IH [OF d r c nr] .
  also have "(\<lambda>x. if x \<in> set pre then (?h1 x)\<lparr>queue := queue (?h1 x) @ [frame m]\<rparr> else ?h1 x)
      = (\<lambda>x. if x \<in> set (p # pre) then (h x)\<lparr>queue := queue (h x) @ [frame m]\<rparr> else h x)"
    using n by (auto simp add: fun_eq_iff)
  finally show ?case .
qed

lemma broadcast_loop_readable:
  "broadcast_loop cs m h = (r, h') \<Longrightarrow>
     readable (h' x) = readable (h x) \<and> accepts (h' x) = accepts (h x)"
proof (induction cs arbitrary: h)
  case Nil
  then show ?case by simp
next
  case (Cons c cs)
  show ?case
  proof (cases "takes (h c)")
    case True
    let ?h1 = "h(c := (h c)\<lparr>queue := queue (h c) @ [frame m]\<rparr>)"
    from True Cons.prems have "broadcast_loop cs m ?h1 = (r, h')"
      by (simp add: enqueue_def)
    from Cons.IH [OF this] show ?thesis by (simp split: if_splits)
  next
    case False
    with Cons.prems show ?thesis by (simp add: enqueue_def)
  qed
qed


lemma broadcast_loop_queue:
  "distinct cs \<Longrightarrow> broadcast_loop cs m h = (r, h') \<Longrightarrow>
     (h' x = h x \<or> x \<in> set cs \<and> h' x = (h x)\<lparr>queue := queue (h x) @ [frame m]\<rparr>) \<and>
     (r = None \<and> x \<in> set cs \<longrightarrow> h' x = (h x)\<lparr>queue := queue (h x) @ [frame m]\<rparr>)"
proof (induction cs arbitrary: h)
  case Nil
  then show ?case by simp
next
  case (Cons c cs)
  show ?case
  proof (cases "takes (h c)")
    case True
    let ?h1 = "h(c := (h c)\<lparr>queue := queue (h c) @ [frame m]\<rparr>)"
    from True Cons.prems have l: "broadcast_loop cs m ?h1 = (r, h')"
      by (simp add: enqueue_def)
    have d: "distinct cs" and n: "c \<notin> set cs" using Cons.prems by auto
    from Cons.IH [OF d l] n show ?thesis by (cases "x = c") auto
  next
    case False
    with Cons.prems show ?thesis by (auto simp add: enqueue_def)
  qed
qed

lemma broadcastNewSketch_fields:
  "broadcastNewSketch m s = (r, s') \<Longrightarrow>
     kv s' = kv s \<and> kv_accepts s' = kv_accepts s \<and> sseClients s' = sseClients s \<and>
     next_ctl s' = next_ctl s \<and> files s' = files s \<and>
     readable (heap s' x) = readable (heap s x) \<and> accepts (heap s' x) = accepts (heap s x)"
proof -
  assume b: "broadcastNewSketch m s = (r, s')"
  obtain r0 h' where l: "broadcast_loop (sseClients s) m (heap s) = (r0, h')"
    by (cases "broadcast_loop (sseClients s) m (heap s)")
  from b l have s': "s' = s\<lparr>heap := h'\<rparr>"
    by (simp add: broadcastNewSketch_def)
  from broadcast_loop_readable [OF l, of x] s' show ?thesis by simp
qed


section \<open>Serialisation\<close>

lemma SerializeJSONProperty_defined:
  "v \<noteq> JUndefined \<Longrightarrow> SerializeJSONProperty v = Some (to_json v)"
  by (cases v) (simp_all add: to_json_def)

lemma to_json_error:
  "to_json (JObj [(''error'', JStr msg)]) = JObj [(''error'', JStr msg)]"
  by (simp add: to_json_def)

lemma js_or_defined: "js_or c JNull \<noteq> JUndefined"
  by (cases c) (simp_all add: js_or_def)

lemma to_json_submission_obj:
  assumes "creator sub \<noteq> JUndefined" and "embed sub = JStr e"
  shows "to_json (submission_obj sub) =
           JObj [(''id'', JStr (id sub)), (''embed'', JStr e),
                 (''creator'', to_json (creator sub)),
                 (''timestamp'', to_json (JNum (double_of_int (timestamp sub))))]"
proof -
  have c: "SerializeJSONProperty (creator sub) = Some (to_json (creator sub))"
    using assms(1) by (rule SerializeJSONProperty_defined)
  have t: "SerializeJSONProperty (JNum (double_of_int (timestamp sub))) =
             Some (to_json (JNum (double_of_int (timestamp sub))))"
    by (rule SerializeJSONProperty_defined) simp
  have "SerializeJSONProperty (submission_obj sub) =
          Some (JObj [(''id'', JStr (id sub)), (''embed'', JStr e),
                 (''creator'', to_json (creator sub)),
                 (''timestamp'', to_json (JNum (double_of_int (timestamp sub))))])"
    unfolding submission_obj_def SerializeJSONProperty.simps(7)
    using c t assms(2) by simp
  then show ?thesis by (simp add: to_json_def)
qed

lemma SerializeJSONProperty_plain: "plain v \<Longrightarrow> SerializeJSONProperty v = Some v"
proof (induction v)
  case (JArr xs)
  then have "\<forall>x\<in>set xs. SerializeJSONProperty x = Some x"
    by (simp add: list_all_iff)
  then have "map (\<lambda>x. case SerializeJSONProperty x of None \<Rightarrow> JNull | Some j \<Rightarrow> j) xs = xs"
    by (simp add: map_idI)
  then show ?case by simp
next
  case (JObj ps)
  then have all: "\<forall>p\<in>set ps. SerializeJSONProperty (snd p) = Some (snd p)"
    by (auto simp add: list_all_iff snds.simps)
  have "concat (map (\<lambda>p. case SerializeJSONProperty (snd p) of
                             None \<Rightarrow> [] | Some j \<Rightarrow> [(fst p, j)]) qs) = qs"
    if "\<forall>p\<in>set qs. SerializeJSONProperty (snd p) = Some (snd p)" for qs
    using that by (induction qs) simp_all
  from this [OF all] show ?case by simp
qed simp_all

lemma to_json_plain: "plain v \<Longrightarrow> to_json v = v"
  by (simp add: to_json_def SerializeJSONProperty_plain)

lemma to_json_infinite: "\<not> isFinite w \<Longrightarrow> to_json (JNum w) = JNull"
  by (simp add: to_json_def)

lemma truthy_iff:
  "truthy c =
     (c \<notin> {JUndefined, JNull, JBool False, JStr []} \<and>
      (\<forall>w. c = JNum w \<longrightarrow> \<not> isZero w \<and> \<not> isNaN w))"
  by (cases c) auto

text \<open>The conversion at a time value, checked against the IEEE 754 encoding of 1000.\<close>

lemma floorlog_2_1000: "floorlog 2 1000 = 10"
proof -
  have "floorlog 2 1000 \<le> 10" by (rule floorlog_leI) simp_all
  moreover have "10 \<le> floorlog 2 1000" by (rule floorlog_geI) simp_all
  ultimately show ?thesis by simp
qed

lemma double_of_int_1000: "double_of_int 1000 = 0x408F400000000000"
  by (simp add: double_of_int_def Let_def floorlog_2_1000)


section \<open>Submissions\<close>

lemma handleSubmit_valid_eq:
  assumes "json req = Inr data" "get_prop data ''embed'' = Inr (JStr e)" "e \<noteq> []"
      and "get_prop data ''creator'' = Inr c"
  shows "handleSubmit render uuid now req s =
     (let submission = \<lparr>id = uuid, embed = JStr e, creator = js_or c JNull, timestamp = now\<rparr>
      in if \<not> kv_accepts s [''iframe'', uuid] submission
         then (error_response render ''Invalid JSON or server error.'', s)
         else
           let s1 = s\<lparr>kv := kv_set [''iframe'', uuid] submission (kv s)\<rparr>
           in (case broadcastNewSketch (JSON_stringify render (submission_obj submission)) s1 of
                 (Some e, s2) \<Rightarrow> (error_response render ''Invalid JSON or server error.'', s2)
               | (None, s2) \<Rightarrow>
                   (\<lparr>status = 201, headers = json_headers,
                     body = Text (JSON_stringify render (submission_obj submission))\<rparr>, s2)))"
  using assms by (simp add: handleSubmit_def)

lemma handleSubmit_rejected:
  assumes "json req = Inr data" "get_prop data ''embed'' = Inr (JStr e)" "e \<noteq> []"
      and "get_prop data ''creator'' = Inr c"
      and "\<not> kv_accepts s [''iframe'', uuid]
               \<lparr>id = uuid, embed = JStr e, creator = js_or c JNull, timestamp = now\<rparr>"
  shows "handleSubmit render uuid now req s =
           (error_response render ''Invalid JSON or server error.'', s)"
  using assms(5) by (simp add: handleSubmit_valid_eq [OF assms(1-4)] Let_def)

lemma handleSubmit_accepted:
  assumes "json req = Inr data" "get_prop data ''embed'' = Inr (JStr e)" "e \<noteq> []"
      and "get_prop data ''creator'' = Inr c"
      and "kv_accepts s [''iframe'', uuid]
               \<lparr>id = uuid, embed = JStr e, creator = js_or c JNull, timestamp = now\<rparr>"
      and "broadcastNewSketch
             (JSON_stringify render
               (submission_obj \<lparr>id = uuid, embed = JStr e, creator = js_or c JNull, timestamp = now\<rparr>))
             (s\<lparr>kv := kv_set [''iframe'', uuid]
                         \<lparr>id = uuid, embed = JStr e, creator = js_or c JNull, timestamp = now\<rparr>
                         (kv s)\<rparr>) = (r, s2)"
  shows "handleSubmit render uuid now req s =
           (case r of
              Some x \<Rightarrow> (error_response render ''Invalid JSON or server error.'', s2)
            | None \<Rightarrow>
                (\<lparr>status = 201, headers = json_headers,
                  body = Text (render
                    (JObj [(''id'', JStr uuid), (''embed'', JStr e),
                           (''creator'', to_json (js_or c JNull)),
                           (''timestamp'', to_json (JNum (double_of_int now)))]))\<rparr>, s2))"
proof -
  let ?sub = "\<lparr>id = uuid, embed = JStr e, creator = js_or c JNull, timestamp = now\<rparr>"
  have j: "JSON_stringify render (submission_obj ?sub) =
             render (JObj [(''id'', JStr uuid), (''embed'', JStr e),
                           (''creator'', to_json (js_or c JNull)),
                           (''timestamp'', to_json (JNum (double_of_int now)))])"
    using to_json_submission_obj [of ?sub e] js_or_defined [of c]
    by (simp add: JSON_stringify_def)
  show ?thesis
    using assms(5,6)
    by (cases r) (simp_all add: handleSubmit_valid_eq [OF assms(1-4)] Let_def j [symmetric])
qed

lemma handleSubmit_stored:
  assumes "json req = Inr data" "get_prop data ''embed'' = Inr (JStr e)" "e \<noteq> []"
      and "get_prop data ''creator'' = Inr c"
      and "kv_accepts s [''iframe'', uuid]
               \<lparr>id = uuid, embed = JStr e, creator = js_or c JNull, timestamp = now\<rparr>"
  shows "kv (snd (handleSubmit render uuid now req s)) =
           kv_set [''iframe'', uuid]
             \<lparr>id = uuid, embed = JStr e, creator = js_or c JNull, timestamp = now\<rparr> (kv s)"
proof -
  let ?sub = "\<lparr>id = uuid, embed = JStr e, creator = js_or c JNull, timestamp = now\<rparr>"
  let ?s1 = "s\<lparr>kv := kv_set [''iframe'', uuid] ?sub (kv s)\<rparr>"
  obtain r0 s2 where b: "broadcastNewSketch (JSON_stringify render (submission_obj ?sub)) ?s1 = (r0, s2)"
    by (cases "broadcastNewSketch (JSON_stringify render (submission_obj ?sub)) ?s1")
  from broadcastNewSketch_fields [OF b] have "kv s2 = kv ?s1" by simp
  moreover have "snd (handleSubmit render uuid now req s) = s2"
    using handleSubmit_accepted [OF assms b] by (cases r0) simp_all
  ultimately show ?thesis by simp
qed

lemma map_of_kv_set: "map_of (kv_set k v entries) k = Some v"
  by (induction entries) auto

lemma get_prop_not_thrown:
  "get_prop data n = Inr v \<Longrightarrow> \<exists>c. get_prop data n' = Inr c"
  by (cases data) (auto split: option.splits)

lemma status_error_response: "status (error_response render msg) = 400"
  by (simp add: error_response_def)

lemma handleSubmit_fields:
  "sseClients (snd (handleSubmit render uuid now req s)) = sseClients s \<and>
   next_ctl (snd (handleSubmit render uuid now req s)) = next_ctl s \<and>
   readable (heap (snd (handleSubmit render uuid now req s)) x) = readable (heap s x)"
proof (cases "json req")
  case (Inl e)
  then show ?thesis by (simp add: handleSubmit_def)
next
  case data: (Inr data)
  show ?thesis
  proof (cases "get_prop data ''embed''")
    case (Inl e)
    with data show ?thesis by (simp add: handleSubmit_def)
  next
    case embed: (Inr v)
    show ?thesis
    proof (cases "\<not> truthy v \<or> typeof v \<noteq> ''string''")
      case True
      with data embed show ?thesis by (simp add: handleSubmit_def)
    next
      case False
      then obtain e where v: "v = JStr e" "e \<noteq> []" by (cases v) auto
      from embed obtain c where creator: "get_prop data ''creator'' = Inr c"
        using get_prop_not_thrown by blast
      from embed v have embed': "get_prop data ''embed'' = Inr (JStr e)" by simp
      let ?sub = "\<lparr>id = uuid, embed = JStr e, creator = js_or c JNull, timestamp = now\<rparr>"
      let ?s1 = "s\<lparr>kv := kv_set [''iframe'', uuid] ?sub (kv s)\<rparr>"
      show ?thesis
      proof (cases "kv_accepts s [''iframe'', uuid] ?sub")
        case False
        from handleSubmit_rejected [OF data embed' v(2) creator False, of render]
        show ?thesis by simp
      next
        case True
        obtain r0 s2 where b: "broadcastNewSketch (JSON_stringify render (submission_obj ?sub)) ?s1 = (r0, s2)"
          by (cases "broadcastNewSketch (JSON_stringify render (submission_obj ?sub)) ?s1")
        have eq: "snd (handleSubmit render uuid now req s) = s2"
          using handleSubmit_accepted [OF data embed' v(2) creator True b]
          by (cases r0) simp_all
        from broadcastNewSketch_fields [OF b, of x] eq show ?thesis by simp
      qed
    qed
  qed
qed

lemma handler_routes:
  "pathname req = ''/submit'' \<and> http_method req = ''POST'' \<Longrightarrow>
     handler render uuid now req s = handleSubmit render uuid now req s"
  "pathname req = ''/sketches'' \<and> http_method req = ''GET'' \<Longrightarrow>
     handler render uuid now req s = (handleList render s, s)"
  "pathname req = ''/events'' \<and> http_method req = ''GET'' \<Longrightarrow>
     handler render uuid now req s = handleSSE s"
  by (auto simp add: handler_def)

text \<open>
  C5. When the body of a \<^verbatim>\<open>POST /submit\<close> is not JSON, \<^verbatim>\<open>_req.json()\<close>
  throws inside the \<^verbatim>\<open>try\<close>, and the \<^verbatim>\<open>catch\<close> answers 400 with the
  JSON object \<^verbatim>\<open>{error: "Invalid JSON or server error."}\<close>; the state is left as
  it was. The handler is a total function: every exception of its body is a branch
  that ends in a response.
\<close>

theorem handleSubmit_unparsable:
  assumes "json req = Inl e"
  shows "handleSubmit render uuid now req s =
           (\<lparr>status = 400, headers = [(''Content-Type'', ''application/json'')],
             body = Text (render (JObj [(''error'', JStr ''Invalid JSON or server error.'')]))\<rparr>, s)"
  using assms
  by (simp add: handleSubmit_def error_response_def json_headers_def JSON_stringify_def to_json_error)

theorem handleSubmit_unparsable_witness:
  "handleSubmit example_render ''u1'' 1000
      \<lparr>http_method = ''POST'', pathname = ''/submit'', json = Inl SyntaxError\<rparr> init_state =
     (\<lparr>status = 400, headers = [(''Content-Type'', ''application/json'')],
       body = Text ''error=Invalid JSON or server error.;''\<rparr>,
      init_state)"
  using handleSubmit_unparsable [where req = "\<lparr>http_method = ''POST'', pathname = ''/submit'', json = Inl SyntaxError\<rparr>"
      and e = SyntaxError and render = example_render and uuid = "''u1''" and now = 1000
      and s = init_state]
  by (simp add: example_render_def brief_def)

text \<open>
  C4. When the parsed body of a \<^verbatim>\<open>POST /submit\<close> has no \<^verbatim>\<open>embed\<close>, or one
  that is not a string, or the empty string (that is, whenever \<^verbatim>\<open>data.embed\<close> is
  not a non-empty string, a body \<^verbatim>\<open>null\<close> included), the response has status 400
  and the state, the key-value store with it, is unchanged.
\<close>

theorem handleSubmit_invalid_embed:
  assumes "json req = Inr data"
      and "\<not> (\<exists>e. e \<noteq> [] \<and> get_prop data ''embed'' = Inr (JStr e))"
  shows "status (fst (handleSubmit render uuid now req s)) = 400 \<and>
         snd (handleSubmit render uuid now req s) = s"
proof (cases "get_prop data ''embed''")
  case (Inl x)
  then show ?thesis using assms by (simp add: handleSubmit_def error_response_def)
next
  case (Inr v)
  then have "\<not> truthy v \<or> typeof v \<noteq> ''string''"
    using assms(2) by (cases v) auto
  then show ?thesis using assms(1) Inr by (auto simp add: handleSubmit_def error_response_def)
qed

theorem handleSubmit_invalid_embed_witness:
  "status (fst (handleSubmit example_render ''u1'' 1000
      (post_submit (JObj [(''embed'', JNum 0x4014000000000000), (''creator'', JStr ''pim'')])) init_state)) = 400 \<and>
   snd (handleSubmit example_render ''u1'' 1000
      (post_submit (JObj [(''embed'', JNum 0x4014000000000000), (''creator'', JStr ''pim'')])) init_state) = init_state"
  using handleSubmit_invalid_embed [where req = "post_submit (JObj [(''embed'', JNum 0x4014000000000000), (''creator'', JStr ''pim'')])"
      and data = "JObj [(''embed'', JNum 0x4014000000000000), (''creator'', JStr ''pim'')]"
      and render = example_render and uuid = "''u1''" and now = 1000 and s = init_state]
  by (simp add: post_submit_def)




text \<open>
  C10, as the code has it. \<^verbatim>\<open>handleSubmit\<close> does not check the type of
  \<^verbatim>\<open>creator\<close>. With a valid \<^verbatim>\<open>embed\<close>, the record written under
  \<^verbatim>\<open>["iframe", id]\<close> (when the store takes the write) has the request's
  \<^verbatim>\<open>creator\<close> verbatim when that value is truthy, whatever its type, and
  \<^verbatim>\<open>null\<close> when it is falsy: absent, \<^verbatim>\<open>null\<close>, \<^verbatim>\<open>false\<close>,
  the empty string or a zero. The record in a 201 response carries the JSON form of that
  creator: the same value whenever JSON can write it, and \<^verbatim>\<open>null\<close> for a
  number that is not finite.
\<close>

theorem handleSubmit_creator:
  assumes "json req = Inr data" and "get_prop data ''embed'' = Inr (JStr e)" and "e \<noteq> []"
      and "get_prop data ''creator'' = Inr c"
  shows "let kept = (if truthy c then c else JNull);
             stored = \<lparr>id = uuid, embed = JStr e, creator = kept, timestamp = now\<rparr>
         in (kv_accepts s [''iframe'', uuid] stored \<longrightarrow>
               map_of (kv (snd (handleSubmit render uuid now req s))) [''iframe'', uuid] = Some stored) \<and>
            (status (fst (handleSubmit render uuid now req s)) = 201 \<longrightarrow>
               body (fst (handleSubmit render uuid now req s)) =
                 Text (render
                   (JObj [(''id'', JStr uuid), (''embed'', JStr e), (''creator'', to_json kept),
                          (''timestamp'', to_json (JNum (double_of_int now)))]))) \<and>
            truthy c =
              (c \<notin> {JUndefined, JNull, JBool False, JStr []} \<and>
               (\<forall>w. c = JNum w \<longrightarrow> \<not> isZero w \<and> \<not> isNaN w)) \<and>
            (plain kept \<longrightarrow> to_json kept = kept) \<and>
            (\<forall>w. kept = JNum w \<and> \<not> isFinite w \<longrightarrow> to_json kept = JNull)"
proof -
  let ?kept = "if truthy c then c else JNull"
  let ?stored = "\<lparr>id = uuid, embed = JStr e, creator = ?kept, timestamp = now\<rparr>"
  have k: "js_or c JNull = ?kept" by (simp add: js_or_def)
  have stored: "map_of (kv (snd (handleSubmit render uuid now req s))) [''iframe'', uuid] = Some ?stored"
    if "kv_accepts s [''iframe'', uuid] ?stored"
    using handleSubmit_stored [OF assms, of s uuid now render] that
    by (simp add: k map_of_kv_set)
  have returned: "body (fst (handleSubmit render uuid now req s)) =
                 Text (render
                   (JObj [(''id'', JStr uuid), (''embed'', JStr e), (''creator'', to_json ?kept),
                          (''timestamp'', to_json (JNum (double_of_int now)))]))"
    if "status (fst (handleSubmit render uuid now req s)) = 201"
  proof (cases "kv_accepts s [''iframe'', uuid] ?stored")
    case False
    with handleSubmit_rejected [OF assms, of s uuid now render] that show ?thesis
      by (simp add: k status_error_response)
  next
    case True
    let ?sub = "\<lparr>id = uuid, embed = JStr e, creator = js_or c JNull, timestamp = now\<rparr>"
    let ?s1 = "s\<lparr>kv := kv_set [''iframe'', uuid] ?sub (kv s)\<rparr>"
    obtain r0 s2 where b: "broadcastNewSketch (JSON_stringify render (submission_obj ?sub)) ?s1 = (r0, s2)"
      by (cases "broadcastNewSketch (JSON_stringify render (submission_obj ?sub)) ?s1")
    from True have acc: "kv_accepts s [''iframe'', uuid] ?sub" by (simp add: k)
    from handleSubmit_accepted [OF assms acc b] that show ?thesis
      by (cases r0) (simp_all add: k status_error_response)
  qed
  have p: "plain ?kept \<longrightarrow> to_json ?kept = ?kept"
    using to_json_plain by blast
  have i: "\<forall>w. ?kept = JNum w \<and> \<not> isFinite w \<longrightarrow> to_json ?kept = JNull"
    using to_json_infinite by auto
  from stored returned truthy_iff [of c] p i show ?thesis
    unfolding Let_def by blast
qed

theorem handleSubmit_creator_witness:
  "status (fst (handleSubmit example_render ''u1'' 1000
      (post_submit (JObj [(''embed'', JStr ''<iframe>''), (''creator'', JNum 0x401C000000000000)])) init_state)) = 201 \<and>
   map_of (kv (snd (handleSubmit example_render ''u1'' 1000
      (post_submit (JObj [(''embed'', JStr ''<iframe>''), (''creator'', JNum 0x401C000000000000)])) init_state)))
      [''iframe'', ''u1''] =
     Some \<lparr>id = ''u1'', embed = JStr ''<iframe>'', creator = JNum 0x401C000000000000, timestamp = 1000\<rparr> \<and>
   body (fst (handleSubmit example_render ''u1'' 1000
      (post_submit (JObj [(''embed'', JStr ''<iframe>''), (''creator'', JNum 0x401C000000000000)])) init_state)) =
     Text (example_render
       (JObj [(''id'', JStr ''u1''), (''embed'', JStr ''<iframe>''),
              (''creator'', JNum 0x401C000000000000), (''timestamp'', JNum 0x408F400000000000)]))"
proof -
  let ?req = "post_submit (JObj [(''embed'', JStr ''<iframe>''), (''creator'', JNum 0x401C000000000000)])"
  have s: "status (fst (handleSubmit example_render ''u1'' 1000 ?req init_state)) = 201"
    by (simp add: handleSubmit_def post_submit_def init_state_def broadcastNewSketch_def Let_def)
  from s handleSubmit_creator [where req = ?req
      and data = "JObj [(''embed'', JStr ''<iframe>''), (''creator'', JNum 0x401C000000000000)]"
      and e = "''<iframe>''" and c = "JNum 0x401C000000000000" and s = init_state
      and uuid = "''u1''" and now = 1000 and render = example_render]
  show ?thesis
    by (simp add: post_submit_def init_state_def Let_def to_json_def double_of_int_1000
        isFinite_def isZero_def isNaN_def)
qed

text \<open>
  C10, as stated, fails: the body with \<^verbatim>\<open>"creator": 1e400\<close> is parsed with
  creator plus infinity, which is truthy; the record is stored with that creator, and the
  201 response returns the record with creator \<^verbatim>\<open>null\<close>.
\<close>

theorem infinite_creator_counterexample:
  "truthy (JNum 0x7FF0000000000000) \<and>
   status (fst (handleSubmit example_render ''u1'' 1000 (post_submit infinite_creator_body) init_state)) = 201 \<and>
   map_of (kv (snd (handleSubmit example_render ''u1'' 1000 (post_submit infinite_creator_body) init_state)))
      [''iframe'', ''u1''] =
     Some \<lparr>id = ''u1'', embed = JStr ''<iframe src=x></iframe>'', creator = JNum 0x7FF0000000000000,
           timestamp = 1000\<rparr> \<and>
   body (fst (handleSubmit example_render ''u1'' 1000 (post_submit infinite_creator_body) init_state)) =
     Text (example_render
       (JObj [(''id'', JStr ''u1''), (''embed'', JStr ''<iframe src=x></iframe>''),
              (''creator'', JNull), (''timestamp'', JNum 0x408F400000000000)])) \<and>
   body (fst (handleSubmit example_render ''u1'' 1000 (post_submit infinite_creator_body) init_state)) \<noteq>
     Text (example_render
       (JObj [(''id'', JStr ''u1''), (''embed'', JStr ''<iframe src=x></iframe>''),
              (''creator'', JNum 0x7FF0000000000000), (''timestamp'', JNum 0x408F400000000000)]))"
  by (simp add: infinite_creator_body_def handleSubmit_def post_submit_def init_state_def
      broadcastNewSketch_def Let_def js_or_def JSON_stringify_def to_json_def submission_obj_def
      double_of_int_1000 isFinite_def isZero_def isNaN_def example_render_def brief_def)

text \<open>
  C1, as the code has it. \<^verbatim>\<open>broadcastNewSketch\<close> has no recovery: when the
  \<^verbatim>\<open>enqueue\<close> to a registered connection fails, the loop ends there. The
  connections before the offending one in the set's order have received the frame, the
  offending one and those after it have received nothing, the set is unchanged, and the
  exception reaches the \<^verbatim>\<open>catch\<close> of \<^verbatim>\<open>handleSubmit\<close>, which answers 400
  although the record has been stored. (When the store rejects the write there is no
  broadcast: the answer is the same 400 and the state is unchanged.)
\<close>

theorem broadcast_failure_propagates:
  assumes "json req = Inr data" and "get_prop data ''embed'' = Inr (JStr e)" and "e \<noteq> []"
      and "get_prop data ''creator'' = Inr cr"
      and "sseClients s = pre @ c # post" and "distinct (sseClients s)"
      and "\<forall>p\<in>set pre. takes (heap s p)" and "\<not> takes (heap s c)"
  shows "let sub = \<lparr>id = uuid, embed = JStr e, creator = js_or cr JNull, timestamp = now\<rparr>;
             message = JSON_stringify render (submission_obj sub)
         in handleSubmit render uuid now req s =
              (\<lparr>status = 400, headers = [(''Content-Type'', ''application/json'')],
                body = Text (render (JObj [(''error'', JStr ''Invalid JSON or server error.'')]))\<rparr>,
               if kv_accepts s [''iframe'', uuid] sub
               then s\<lparr>kv := kv_set [''iframe'', uuid] sub (kv s),
                      heap := (\<lambda>x. if x \<in> set pre
                                    then (heap s x)\<lparr>queue := queue (heap s x) @ [frame message]\<rparr>
                                    else heap s x)\<rparr>
               else s)"
proof -
  let ?sub = "\<lparr>id = uuid, embed = JStr e, creator = js_or cr JNull, timestamp = now\<rparr>"
  let ?m = "JSON_stringify render (submission_obj ?sub)"
  let ?s1 = "s\<lparr>kv := kv_set [''iframe'', uuid] ?sub (kv s)\<rparr>"
  let ?h = "\<lambda>x. if x \<in> set pre
                 then (heap s x)\<lparr>queue := queue (heap s x) @ [frame ?m]\<rparr> else heap s x"
  have err: "error_response render ''Invalid JSON or server error.'' =
      \<lparr>status = 400, headers = [(''Content-Type'', ''application/json'')],
       body = Text (render (JObj [(''error'', JStr ''Invalid JSON or server error.'')]))\<rparr>"
    by (simp add: error_response_def json_headers_def JSON_stringify_def to_json_error)
  show ?thesis
  proof (cases "kv_accepts s [''iframe'', uuid] ?sub")
    case False
    from handleSubmit_rejected [OF assms(1-4) False, of render] err False
    show ?thesis by (simp add: Let_def)
  next
    case True
    have d: "distinct pre" and n: "c \<notin> set pre" using assms(5,6) by auto
    have "broadcast_loop (sseClients ?s1) ?m (heap ?s1) = (Some TypeError, ?h)"
      using broadcast_loop_first_failure [OF d assms(7) n assms(8), of post ?m] assms(5) by simp
    then have b: "broadcastNewSketch ?m ?s1 = (Some TypeError, ?s1\<lparr>heap := ?h\<rparr>)"
      by (simp add: broadcastNewSketch_def)
    from handleSubmit_accepted [OF assms(1-4) True b] err True
    show ?thesis by (simp add: Let_def)
  qed
qed

theorem broadcast_failure_propagates_witness:
  "status (fst (handleSubmit example_render ''u1'' 1000 (post_submit sketch_body) stalled_state)) = 400 \<and>
   kv (snd (handleSubmit example_render ''u1'' 1000 (post_submit sketch_body) stalled_state)) =
     [([''iframe'', ''u1''],
       \<lparr>id = ''u1'', embed = JStr ''<iframe src=x></iframe>'', creator = JStr ''pim'', timestamp = 1000\<rparr>)] \<and>
   sseClients (snd (handleSubmit example_render ''u1'' 1000 (post_submit sketch_body) stalled_state)) = [0, 1, 2] \<and>
   queue (heap (snd (handleSubmit example_render ''u1'' 1000 (post_submit sketch_body) stalled_state)) 0) =
     [frame ''id=u1;embed=<iframe src=x></iframe>;creator=pim;timestamp=<number>;''] \<and>
   queue (heap (snd (handleSubmit example_render ''u1'' 1000 (post_submit sketch_body) stalled_state)) 1) = [] \<and>
   queue (heap (snd (handleSubmit example_render ''u1'' 1000 (post_submit sketch_body) stalled_state)) 2) = []"
  using broadcast_failure_propagates [where req = "post_submit sketch_body" and data = sketch_body
      and e = "''<iframe src=x></iframe>''" and cr = "JStr ''pim''" and s = stalled_state
      and pre = "[0]" and c = 1 and post = "[2]" and render = example_render
      and uuid = "''u1''" and now = 1000]
  by (simp add: post_submit_def sketch_body_def stalled_state_def init_state_def takes_def
      js_or_def JSON_stringify_def to_json_def submission_obj_def double_of_int_1000
      isFinite_def isZero_def example_render_def brief_def Let_def)

text \<open>
  C1, as stated, fails: with connections 0, 1 and 2 registered and the reader of
  connection 1 refusing the chunk, the \<^verbatim>\<open>enqueue\<close> to connection 1 throws, the
  submission is answered 400, connection 1 is still in the set, and connection 2, which
  takes chunks, has received nothing.
\<close>

theorem broadcast_failure_counterexample:
  "fst (enqueue 1 (frame ''id=u1;embed=<iframe src=x></iframe>;creator=pim;timestamp=<number>;'')
         (heap stalled_state)) = Some TypeError \<and>
   status (fst (handleSubmit example_render ''u1'' 1000 (post_submit sketch_body) stalled_state)) = 400 \<and>
   sseClients (snd (handleSubmit example_render ''u1'' 1000 (post_submit sketch_body) stalled_state)) = [0, 1, 2] \<and>
   takes (heap stalled_state 2) \<and>
   queue (heap (snd (handleSubmit example_render ''u1'' 1000 (post_submit sketch_body) stalled_state)) 2) = [] \<and>
   queue (heap (snd (handleSubmit example_render ''u1'' 1000 (post_submit sketch_body) stalled_state)) 0) =
     [frame ''id=u1;embed=<iframe src=x></iframe>;creator=pim;timestamp=<number>;'']"
  by (simp add: handleSubmit_def post_submit_def sketch_body_def stalled_state_def init_state_def
      broadcastNewSketch_def enqueue_def takes_def js_or_def JSON_stringify_def to_json_def
      submission_obj_def double_of_int_1000 isFinite_def isZero_def example_render_def brief_def
      error_response_def Let_def)

section \<open>Listing\<close>

lemma kv_set_keys: "fst ` set (kv_set k v entries) = insert k (fst ` set entries)"
proof (induction entries)
  case Nil
  then show ?case by simp
next
  case (Cons e entries)
  obtain k' v' where e: "e = (k', v')" by (cases e)
  show ?case
  proof (cases "k = k'")
    case True
    with e show ?thesis by simp
  next
    case neq: False
    show ?thesis
    proof (cases "k < k'")
      case True
      with e neq show ?thesis by simp
    next
      case False
      with e neq Cons.IH show ?thesis by (simp add: insert_commute)
    qed
  qed
qed

lemma kv_set_length:
  "k \<notin> fst ` set entries \<Longrightarrow> length (kv_set k v entries) = Suc (length entries)"
  by (induction entries) auto

lemma kv_set_set:
  "k \<notin> fst ` set entries \<Longrightarrow> set (kv_set k v entries) = insert (k, v) (set entries)"
proof (induction entries)
  case Nil
  then show ?case by simp
next
  case (Cons e entries)
  obtain k' v' where e: "e = (k', v')" by (cases e)
  from Cons.prems e have neq: "k \<noteq> k'" and rest: "k \<notin> fst ` set entries" by auto
  show ?case
  proof (cases "k < k'")
    case True
    with e neq show ?thesis by simp
  next
    case False
    with e neq Cons.IH [OF rest] show ?thesis by (simp add: insert_commute)
  qed
qed

lemma kv_set_sorted:
  "sorted_wrt (<) (map fst entries) \<Longrightarrow> sorted_wrt (<) (map fst (kv_set k v entries))"
proof (induction entries)
  case Nil
  then show ?case by simp
next
  case (Cons e entries)
  obtain k' v' where e: "e = (k', v')" by (cases e)
  show ?case
  proof (cases "k = k'")
    case True
    with Cons.prems e show ?thesis by simp
  next
    case neq: False
    show ?thesis
    proof (cases "k < k'")
      case True
      with Cons.prems e neq show ?thesis by auto
    next
      case False
      with neq have lt: "k' < k" by simp
      have "\<forall>y\<in>fst ` set (kv_set k v entries). k' < y"
        using Cons.prems e lt by (auto simp add: kv_set_keys)
      with Cons e neq False show ?thesis by simp
    qed
  qed
qed

lemma insert_by_set: "set (insert_by cmp x xs) = insert x (set xs)"
  by (induction xs) auto

lemma insert_by_length: "length (insert_by cmp x xs) = Suc (length xs)"
  by (induction xs) auto

lemma sort_by_set: "set (sort_by cmp xs) = set xs"
  by (induction xs) (simp_all add: sort_by_def insert_by_set)

lemma sort_by_length: "length (sort_by cmp xs) = length xs"
  by (induction xs) (simp_all add: sort_by_def insert_by_length)

lemma insert_by_newest_first:
  "sorted_wrt (\<lambda>a b. timestamp b \<le> timestamp a) xs \<Longrightarrow>
   sorted_wrt (\<lambda>a b. timestamp b \<le> timestamp a) (insert_by (\<lambda>a b. timestamp b - timestamp a) x xs)"
  by (induction xs) (auto simp add: insert_by_set)

lemma sort_by_newest_first:
  "sorted_wrt (\<lambda>a b. timestamp b \<le> timestamp a) (sort_by (\<lambda>a b. timestamp b - timestamp a) xs)"
  by (induction xs) (simp_all add: sort_by_def insert_by_newest_first)

lemma handleSubmit_201:
  assumes "status (fst (handleSubmit render uuid now (post_submit data) s)) = 201"
  shows "kv (snd (handleSubmit render uuid now (post_submit data) s)) =
           kv_set [''iframe'', uuid] (submitted (uuid, now, data)) (kv s)"
proof (cases "get_prop data ''embed''")
  case (Inl e)
  with assms show ?thesis by (simp add: handleSubmit_def post_submit_def error_response_def)
next
  case embed: (Inr v)
  show ?thesis
  proof (cases "\<not> truthy v \<or> typeof v \<noteq> ''string''")
    case True
    with assms embed show ?thesis
      by (simp add: handleSubmit_def post_submit_def error_response_def)
  next
    case False
    then obtain e where v: "v = JStr e" "e \<noteq> []" by (cases v) auto
    from embed obtain c where creator: "get_prop data ''creator'' = Inr c"
      using get_prop_not_thrown by blast
    have j: "json (post_submit data) = Inr data" by (simp add: post_submit_def)
    have e: "get_prop data ''embed'' = Inr (JStr e)" using embed v by simp
    let ?sub = "\<lparr>id = uuid, embed = JStr e, creator = js_or c JNull, timestamp = now\<rparr>"
    have sub: "submitted (uuid, now, data) = ?sub"
      using e creator by (simp add: field_def)
    show ?thesis
    proof (cases "kv_accepts s [''iframe'', uuid] ?sub")
      case False
      from handleSubmit_rejected [OF j e v(2) creator False, of render] assms
      show ?thesis by (simp add: status_error_response)
    next
      case True
      from handleSubmit_stored [OF j e v(2) creator True, of render] sub
      show ?thesis by simp
    qed
  qed
qed

lemma submit_all_kv:
  assumes "submit_all render reqs s = (rs, s')"
      and "\<forall>r\<in>set rs. status r = 201"
      and "sorted_wrt (<) (map fst (kv s))"
      and "distinct (map fst reqs)"
      and "\<forall>u\<in>fst ` set reqs. [''iframe'', u] \<notin> fst ` set (kv s)"
  shows "sorted_wrt (<) (map fst (kv s')) \<and>
         set (kv s') = set (kv s) \<union> (\<lambda>q. ([''iframe'', fst q], submitted q)) ` set reqs \<and>
         length (kv s') = length (kv s) + length reqs \<and>
         length rs = length reqs"
  using assms
proof (induction reqs arbitrary: s rs s')
  case Nil
  then show ?case by simp
next
  case (Cons q rest)
  obtain u n d where q: "q = (u, n, d)" by (cases q)
  obtain r s1 where h: "handleSubmit render u n (post_submit d) s = (r, s1)"
    by (cases "handleSubmit render u n (post_submit d) s")
  obtain rs' s2 where a: "submit_all render rest s1 = (rs', s2)"
    by (cases "submit_all render rest s1")
  from Cons.prems(1) q h a have rs: "rs = r # rs'" and s': "s' = s2" by simp_all
  from Cons.prems(2) rs have r: "status r = 201" and rs': "\<forall>r\<in>set rs'. status r = 201"
    by simp_all
  have fresh: "[''iframe'', u] \<notin> fst ` set (kv s)"
    using Cons.prems(5) q by simp
  have kv1: "kv s1 = kv_set [''iframe'', u] (submitted q) (kv s)"
    using handleSubmit_201 [of render u n d s] h r q by simp
  have sorted1: "sorted_wrt (<) (map fst (kv s1))"
    using kv1 kv_set_sorted [OF Cons.prems(3)] by simp
  have set1: "set (kv s1) = insert ([''iframe'', u], submitted q) (set (kv s))"
    using kv1 kv_set_set [OF fresh] by simp
  have len1: "length (kv s1) = Suc (length (kv s))"
    using kv1 kv_set_length [OF fresh] by simp
  have d: "distinct (map fst rest)" and nu: "u \<notin> fst ` set rest"
    using Cons.prems(4) q by simp_all
  have fresh1: "\<forall>u'\<in>fst ` set rest. [''iframe'', u'] \<notin> fst ` set (kv s1)"
  proof
    fix u' assume u': "u' \<in> fst ` set rest"
    with nu have "u' \<noteq> u" by auto
    moreover from u' Cons.prems(5) have "[''iframe'', u'] \<notin> fst ` set (kv s)" by auto
    ultimately show "[''iframe'', u'] \<notin> fst ` set (kv s1)"
      using set1 by simp
  qed
  from Cons.IH [OF a rs' sorted1 d fresh1]
  have "sorted_wrt (<) (map fst (kv s2))"
    and "set (kv s2) = set (kv s1) \<union> (\<lambda>q. ([''iframe'', fst q], submitted q)) ` set rest"
    and "length (kv s2) = length (kv s1) + length rest"
    and "length rs' = length rest" by simp_all
  with set1 len1 rs s' q show ?case by auto
qed

lemma list_submissions_all:
  assumes "\<forall>e\<in>set (kv s). \<exists>u. fst e = [''iframe'', u]"
  shows "list_submissions s = map snd (kv s)"
proof -
  have "filter (\<lambda>e. length [''iframe''] < length (fst e) \<and>
                     take (length [''iframe'']) (fst e) = [''iframe'']) (kv s) = kv s"
    using assms by (auto simp add: filter_id_conv)
  then show ?thesis
    by (simp add: list_submissions_def kv_list_def submission_obj_def)
qed

lemma submitted_id: "id (submitted q) = fst q"
  by (cases q) simp

text \<open>
  C3, as the code has it. After \<open>N\<close> successful submissions to an empty store, for
  which the runtime drew pairwise distinct UUIDs, both variants of \<^verbatim>\<open>handleList\<close>
  answer 200 with exactly \<open>N\<close> records, which are exactly the submitted ones. The
  variant that sorts (lines 52 to 59) returns them newest first by timestamp. The variant
  without a sort (lines 158 to 164) returns them as \<^verbatim>\<open>kv.list\<close> yields them:
  in ascending order of their keys, that is of their ids, whatever their timestamps.
\<close>

theorem list_after_submissions:
  assumes "submit_all render reqs s0 = (rs, s)" and "kv s0 = []"
      and "\<forall>r\<in>set rs. status r = 201"
      and "distinct (map fst reqs)"
  shows "handleList render s =
           \<lparr>status = 200, headers = [(''Content-Type'', ''application/json'')],
            body = Text (JSON_stringify render (JArr (map submission_obj (sorted_submissions s))))\<rparr> \<and>
         length (sorted_submissions s) = length reqs \<and>
         set (sorted_submissions s) = submitted ` set reqs \<and>
         sorted_wrt (\<lambda>a b. timestamp b \<le> timestamp a) (sorted_submissions s) \<and>
         handleList_v2 render s =
           \<lparr>status = 200, headers = [(''Content-Type'', ''application/json'')],
            body = Text (JSON_stringify render (JArr (map submission_obj (list_submissions s))))\<rparr> \<and>
         length (list_submissions s) = length reqs \<and>
         set (list_submissions s) = submitted ` set reqs \<and>
         sorted_wrt (<) (map id (list_submissions s))"
proof -
  from submit_all_kv [OF assms(1,3) _ assms(4)] assms(2)
  have sorted: "sorted_wrt (<) (map fst (kv s))"
    and entries: "set (kv s) = (\<lambda>q. ([''iframe'', fst q], submitted q)) ` set reqs"
    and len: "length (kv s) = length reqs"
    by simp_all
  have keys: "\<forall>e\<in>set (kv s). fst e = [''iframe'', id (snd e)]"
    using entries by (auto simp add: submitted_id)
  then have "\<forall>e\<in>set (kv s). \<exists>u. fst e = [''iframe'', u]" by blast
  from list_submissions_all [OF this] have l: "list_submissions s = map snd (kv s)" .
  have l_len: "length (list_submissions s) = length reqs" using l len by simp
  have "snd ` set (kv s) = submitted ` set reqs"
    using entries by (simp add: image_image)
  then have l_set: "set (list_submissions s) = submitted ` set reqs" using l by simp
  have "sorted_wrt (\<lambda>e e'. fst e < fst e') (kv s)"
    using sorted by (simp add: sorted_wrt_map)
  then have "sorted_wrt (\<lambda>e e'. id (snd e) < id (snd e')) (kv s)"
  proof (rule sorted_wrt_mono_rel [rotated])
    fix e e' assume "e \<in> set (kv s)" "e' \<in> set (kv s)" "fst e < fst e'"
    with keys show "id (snd e) < id (snd e')" by simp
  qed
  then have l_sorted: "sorted_wrt (<) (map id (list_submissions s))"
    using l by (simp add: sorted_wrt_map)
  have s_len: "length (sorted_submissions s) = length reqs"
    using l_len by (simp add: sorted_submissions_def sort_by_length)
  have s_set: "set (sorted_submissions s) = submitted ` set reqs"
    using l_set by (simp add: sorted_submissions_def sort_by_set)
  have s_sorted: "sorted_wrt (\<lambda>a b. timestamp b \<le> timestamp a) (sorted_submissions s)"
    by (simp add: sorted_submissions_def sort_by_newest_first)
  have h1: "handleList render s =
           \<lparr>status = 200, headers = [(''Content-Type'', ''application/json'')],
            body = Text (JSON_stringify render (JArr (map submission_obj (sorted_submissions s))))\<rparr>"
    by (simp add: handleList_def json_headers_def)
  have h2: "handleList_v2 render s =
           \<lparr>status = 200, headers = [(''Content-Type'', ''application/json'')],
            body = Text (JSON_stringify render (JArr (map submission_obj (list_submissions s))))\<rparr>"
    by (simp add: handleList_v2_def json_headers_def)
  from h1 s_len s_set s_sorted h2 l_len l_set l_sorted show ?thesis by blast
qed

theorem list_after_submissions_witness:
  "length (sorted_submissions (snd (submit_all example_render two_sketches init_state))) = 2 \<and>
   sorted_wrt (\<lambda>a b. timestamp b \<le> timestamp a)
     (sorted_submissions (snd (submit_all example_render two_sketches init_state))) \<and>
   length (list_submissions (snd (submit_all example_render two_sketches init_state))) = 2 \<and>
   sorted_wrt (<) (map id (list_submissions (snd (submit_all example_render two_sketches init_state))))"
proof -
  have a: "submit_all example_render two_sketches init_state =
      (fst (submit_all example_render two_sketches init_state),
       snd (submit_all example_render two_sketches init_state))"
    by simp
  have k: "kv init_state = []"
    by (simp add: init_state_def)
  have h: "\<forall>r\<in>set (fst (submit_all example_render two_sketches init_state)). status r = 201"
    by (simp add: two_sketches_def init_state_def handleSubmit_def post_submit_def
        broadcastNewSketch_def js_or_def Let_def)
  have d: "distinct (map fst two_sketches)"
    by (simp add: two_sketches_def)
  have n: "length two_sketches = 2"
    by (simp add: two_sketches_def)
  from list_after_submissions [OF a k h d] n show ?thesis by simp
qed

text \<open>
  C3, as stated, fails for the variant without a sort: of two successful submissions a
  minute apart, the earlier of which drew the smaller UUID, it lists the older first.
\<close>

theorem unsorted_list_counterexample:
  "map status (fst (submit_all example_render two_sketches init_state)) = [201, 201] \<and>
   list_submissions (snd (submit_all example_render two_sketches init_state)) =
     [\<lparr>id = ''1b4e28ba-2fa1-41d2-883f-0016d3cca427'', embed = JStr ''<iframe src=a></iframe>'',
       creator = JNull, timestamp = 1739500000000\<rparr>,
      \<lparr>id = ''6fa459ea-ee8a-4ca4-894e-db77e160355e'', embed = JStr ''<iframe src=b></iframe>'',
       creator = JStr ''pim'', timestamp = 1739500060000\<rparr>] \<and>
   \<not> sorted_wrt (\<lambda>a b. timestamp b \<le> timestamp a)
       (list_submissions (snd (submit_all example_render two_sketches init_state)))"
  by (simp add: two_sketches_def init_state_def handleSubmit_def post_submit_def
      broadcastNewSketch_def js_or_def list_submissions_def kv_list_def submission_obj_def Let_def)


section \<open>The push endpoint\<close>

lemma handleSSE_fields:
  "sseClients (snd (handleSSE s)) = Set_add (next_ctl s) (sseClients s) \<and>
   next_ctl (snd (handleSSE s)) = Suc (next_ctl s) \<and>
   heap (snd (handleSSE s)) =
     (heap s)(next_ctl s := (heap s (next_ctl s))\<lparr>readable := True, queue := []\<rparr>) \<and>
   body (fst (handleSSE s)) = Stream \<lparr>controller = next_ctl s, controllerRef = Some (next_ctl s)\<rparr>"
  by (simp add: handleSSE_def start_def Let_def)

lemma handler_fields:
  "snd (handler render uuid now req s) = snd (handleSSE s) \<or>
   sseClients (snd (handler render uuid now req s)) = sseClients s \<and>
   next_ctl (snd (handler render uuid now req s)) = next_ctl s \<and>
   (\<forall>x. readable (heap (snd (handler render uuid now req s)) x) = readable (heap s x))"
proof -
  have "\<forall>x. readable (heap (snd (handleSubmit render uuid now req s)) x) = readable (heap s x)"
    using handleSubmit_fields [of render uuid now req s] by blast
  then show ?thesis
    using handleSubmit_fields [of render uuid now req s]
    by (simp add: handler_def)
qed

lemma step_keeps_registered:
  assumes "c < next_ctl t" and "c \<in> set (sseClients t)" and "readable (heap t c)"
      and "\<forall>st'. e = Disconnect st' \<longrightarrow> controller st' \<noteq> c \<and> controllerRef st' \<noteq> Some c"
  shows "c < next_ctl (step render t e) \<and> c \<in> set (sseClients (step render t e)) \<and>
         readable (heap (step render t e) c)"
proof (cases e)
  case (Request uuid now req)
  from handler_fields [of render uuid now req t] show ?thesis
  proof
    assume "snd (handler render uuid now req t) = snd (handleSSE t)"
    then show ?thesis
      using assms(1-3) Request handleSSE_fields [of t] by (simp add: Set_add_def)
  next
    assume "sseClients (snd (handler render uuid now req t)) = sseClients t \<and>
      next_ctl (snd (handler render uuid now req t)) = next_ctl t \<and>
      (\<forall>x. readable (heap (snd (handler render uuid now req t)) x) = readable (heap t x))"
    then show ?thesis using assms(1-3) Request by simp
  qed
next
  case (Disconnect st')
  with assms(4) have "controller st' \<noteq> c" "controllerRef st' \<noteq> Some c" by auto
  then show ?thesis
    using assms(1-3) Disconnect
    by (cases "controllerRef st'")
       (simp_all add: stream_cancel_def cancel_def Set_delete_def Let_def)
qed

lemma step_keeps_unregistered:
  assumes "c < next_ctl t" and "c \<notin> set (sseClients t)" and "\<not> readable (heap t c)"
  shows "c < next_ctl (step render t e) \<and> c \<notin> set (sseClients (step render t e)) \<and>
         \<not> readable (heap (step render t e) c)"
proof (cases e)
  case (Request uuid now req)
  from handler_fields [of render uuid now req t] show ?thesis
  proof
    assume "snd (handler render uuid now req t) = snd (handleSSE t)"
    then show ?thesis
      using assms Request handleSSE_fields [of t] by (simp add: Set_add_def)
  next
    assume "sseClients (snd (handler render uuid now req t)) = sseClients t \<and>
      next_ctl (snd (handler render uuid now req t)) = next_ctl t \<and>
      (\<forall>x. readable (heap (snd (handler render uuid now req t)) x) = readable (heap t x))"
    then show ?thesis using assms Request by simp
  qed
next
  case (Disconnect st')
  show ?thesis
    using assms Disconnect
    by (cases "controllerRef st'")
       (auto simp add: stream_cancel_def cancel_def Set_delete_def Let_def)
qed

lemma run_keeps_registered:
  assumes "c < next_ctl t" and "c \<in> set (sseClients t)" and "readable (heap t c)"
      and "\<forall>st'. Disconnect st' \<in> set evs \<longrightarrow> controller st' \<noteq> c \<and> controllerRef st' \<noteq> Some c"
  shows "c < next_ctl (run render t evs) \<and> c \<in> set (sseClients (run render t evs)) \<and>
         readable (heap (run render t evs) c)"
  using assms
proof (induction evs arbitrary: t)
  case Nil
  then show ?case by (simp add: run_def)
next
  case (Cons e evs)
  have e: "\<forall>st'. e = Disconnect st' \<longrightarrow> controller st' \<noteq> c \<and> controllerRef st' \<noteq> Some c"
    using Cons.prems(4) by simp
  have evs: "\<forall>st'. Disconnect st' \<in> set evs \<longrightarrow> controller st' \<noteq> c \<and> controllerRef st' \<noteq> Some c"
    using Cons.prems(4) by simp
  from step_keeps_registered [OF Cons.prems(1-3) e, of render]
  have "c < next_ctl (step render t e)" "c \<in> set (sseClients (step render t e))"
    "readable (heap (step render t e) c)" by simp_all
  from Cons.IH [OF this evs] show ?case by (simp add: run_def)
qed

lemma run_keeps_unregistered:
  assumes "c < next_ctl t" and "c \<notin> set (sseClients t)" and "\<not> readable (heap t c)"
  shows "c < next_ctl (run render t evs) \<and> c \<notin> set (sseClients (run render t evs)) \<and>
         \<not> readable (heap (run render t evs) c)"
  using assms
proof (induction evs arbitrary: t)
  case Nil
  then show ?case by (simp add: run_def)
next
  case (Cons e evs)
  from step_keeps_unregistered [OF Cons.prems(1-3), of render e]
  have "c < next_ctl (step render t e)" "c \<notin> set (sseClients (step render t e))"
    "\<not> readable (heap (step render t e) c)" by simp_all
  from Cons.IH [OF this] show ?case by (simp add: run_def)
qed

text \<open>
  The registry stays in order along every run in which the streams the runtime cancels
  are streams \<^verbatim>\<open>handleSSE\<close> made (their \<^verbatim>\<open>controllerRef\<close> is their own
  controller): a registered connection always has a readable stream. Whether its reader
  takes a chunk is another matter: \<open>stalled_state\<close> is in order and is reached by three
  requests.
\<close>

lemma registry_ok_step:
  assumes "registry_ok t"
      and "\<forall>st'. e = Disconnect st' \<longrightarrow> controllerRef st' = Some (controller st')"
  shows "registry_ok (step render t e)"
proof (cases e)
  case (Request uuid now req)
  from handler_fields [of render uuid now req t] show ?thesis
  proof
    assume "snd (handler render uuid now req t) = snd (handleSSE t)"
    then show ?thesis
      using assms(1) Request handleSSE_fields [of t]
      by (auto simp add: registry_ok_def Set_add_def)
  next
    assume "sseClients (snd (handler render uuid now req t)) = sseClients t \<and>
      next_ctl (snd (handler render uuid now req t)) = next_ctl t \<and>
      (\<forall>x. readable (heap (snd (handler render uuid now req t)) x) = readable (heap t x))"
    then show ?thesis using assms(1) Request by (simp add: registry_ok_def)
  qed
next
  case (Disconnect st')
  with assms(2) have "controllerRef st' = Some (controller st')" by simp
  then show ?thesis
    using assms(1) Disconnect
    by (simp add: registry_ok_def stream_cancel_def cancel_def Set_delete_def Let_def)
qed

lemma registry_invariant:
  assumes "registry_ok t"
      and "\<forall>st'. Disconnect st' \<in> set evs \<longrightarrow> controllerRef st' = Some (controller st')"
  shows "registry_ok (run render t evs)"
  using assms
proof (induction evs arbitrary: t)
  case Nil
  then show ?case by (simp add: run_def)
next
  case (Cons e evs)
  have "registry_ok (step render t e)"
    using registry_ok_step [OF Cons.prems(1), of e render] Cons.prems(2) by simp
  from Cons.IH [OF this] Cons.prems(2) show ?case by (simp add: run_def)
qed

lemma registry_ok_init: "registry_ok init_state"
  by (simp add: registry_ok_def init_state_def)

lemma stalled_state_reached:
  "snd (handleSSE (snd (handleSSE (snd (handleSSE stalling_runtime))))) = stalled_state"
  "registry_ok stalled_state"
  by (auto simp add: handleSSE_def start_def Set_add_def Let_def stalling_runtime_def
      stalled_state_def init_state_def registry_ok_def fun_eq_iff)



text \<open>
  C6. \<^verbatim>\<open>sseClients\<close> is a set of handles: registering a handle twice leaves the
  same state as registering it once, the handle then occurs once in the order a
  broadcast walks, so that a broadcast writes at most one frame to it, and unregistering
  a handle that is not in the set changes nothing.
\<close>

theorem sseClients_is_a_set:
  "snd (start c (snd (start c s))) = snd (start c s) \<and>
   (c \<notin> set (sseClients s) \<longrightarrow> cancel (Some c) s = s) \<and>
   (distinct (sseClients s) \<longrightarrow>
      distinct (sseClients (snd (start c s))) \<and>
      count_list (sseClients (snd (start c (snd (start c s))))) c = 1 \<and>
      (queue (heap (snd (broadcastNewSketch message (snd (start c (snd (start c s)))))) c) = queue (heap s c) \<or>
       queue (heap (snd (broadcastNewSketch message (snd (start c (snd (start c s)))))) c) =
         queue (heap s c) @ [frame message]))"
proof -
  let ?s2 = "snd (start c (snd (start c s)))"
  have once: "?s2 = snd (start c s)"
    by (simp add: start_def Set_add_def)
  have zero: "count_list xs c = 0" if "c \<notin> set xs" for xs
    using that by (induction xs) auto
  have one: "count_list xs c = 1" if "c \<in> set xs" "distinct xs" for xs
    using that by (induction xs) (auto simp add: zero)
  have d: "distinct (sseClients ?s2)" if "distinct (sseClients s)"
    using that by (simp add: start_def Set_add_def)
  have m: "c \<in> set (sseClients ?s2)"
    by (simp add: start_def Set_add_def)
  have q: "queue (heap (snd (broadcastNewSketch message ?s2)) c) = queue (heap s c) \<or>
           queue (heap (snd (broadcastNewSketch message ?s2)) c) = queue (heap s c) @ [frame message]"
    if "distinct (sseClients s)"
  proof -
    obtain r0 h' where l: "broadcast_loop (sseClients ?s2) message (heap ?s2) = (r0, h')"
      by (cases "broadcast_loop (sseClients ?s2) message (heap ?s2)")
    then have h': "heap (snd (broadcastNewSketch message ?s2)) = h'"
      by (simp add: broadcastNewSketch_def)
    have "heap ?s2 = heap s" by (simp add: start_def)
    with broadcast_loop_queue [OF d [OF that] l, of c] h' show ?thesis by auto
  qed
  have n: "cancel (Some c) s = s" if "c \<notin> set (sseClients s)"
    using that by (simp add: cancel_def Set_delete_def)
  have d1: "distinct (sseClients (snd (start c s)))" if "distinct (sseClients s)"
    using d [OF that] by (simp only: once)
  have c1: "count_list (sseClients ?s2) c = 1" if "distinct (sseClients s)"
    using one [OF m d [OF that]] .
  from once n d1 c1 q show ?thesis by blast
qed

theorem sseClients_is_a_set_witness:
  "snd (start 0 (snd (start 0 init_state))) = snd (start 0 init_state) \<and>
   cancel (Some 0) init_state = init_state \<and>
   distinct (sseClients (snd (start 0 init_state))) \<and>
   count_list (sseClients (snd (start 0 (snd (start 0 init_state))))) 0 = 1"
  using sseClients_is_a_set [of 0 init_state "''{}''"]
  by (simp add: init_state_def start_def Set_add_def)

text \<open>
  C7. A connection made by \<^verbatim>\<open>handleSSE\<close> stays registered, whether or not a
  message is ever delivered to it, while requests are handled and other streams are
  cancelled. When the runtime cancels its stream (how a disconnect reaches the code), the
  \<^verbatim>\<open>cancel\<close> callback removes its controller from the set; whatever happens
  afterwards, the controller is never in the set again, and cancelling the stream a
  second time changes nothing.
\<close>

theorem disconnect_unregisters_once:
  assumes "handleSSE s = (r, s1)" and "body r = Stream st"
      and "\<forall>st'. Disconnect st' \<in> set evs \<longrightarrow>
             controller st' \<noteq> controller st \<and> controllerRef st' \<noteq> Some (controller st)"
  shows "controller st \<in> set (sseClients (run render s1 evs)) \<and>
         controller st \<notin> set (sseClients (stream_cancel st (run render s1 evs))) \<and>
         controller st \<notin> set (sseClients (run render (stream_cancel st (run render s1 evs)) evs')) \<and>
         stream_cancel st (run render (stream_cancel st (run render s1 evs)) evs') =
           run render (stream_cancel st (run render s1 evs)) evs'"
proof -
  let ?c = "controller st"
  have st: "st = \<lparr>controller = next_ctl s, controllerRef = Some (next_ctl s)\<rparr>"
    and s1: "s1 = snd (handleSSE s)"
    using assms(1,2) handleSSE_fields [of s] by simp_all
  have "?c < next_ctl s1" "?c \<in> set (sseClients s1)" "readable (heap s1 ?c)"
    using st s1 handleSSE_fields [of s] by (simp_all add: Set_add_def)
  from run_keeps_registered [OF this assms(3), of render]
  have before: "?c < next_ctl (run render s1 evs)" "?c \<in> set (sseClients (run render s1 evs))"
    "readable (heap (run render s1 evs) ?c)" by simp_all
  let ?t = "stream_cancel st (run render s1 evs)"
  have after: "?c < next_ctl ?t" "?c \<notin> set (sseClients ?t)" "\<not> readable (heap ?t ?c)"
    using before st by (simp_all add: stream_cancel_def cancel_def Set_delete_def Let_def)
  from run_keeps_unregistered [OF after, of render evs']
  have later: "?c \<notin> set (sseClients (run render ?t evs'))"
    "\<not> readable (heap (run render ?t evs') ?c)" by simp_all
  from later(2) have "stream_cancel st (run render ?t evs') = run render ?t evs'"
    by (simp add: stream_cancel_def Let_def)
  with before(2) after(2) later(1) show ?thesis by simp
qed

theorem disconnect_unregisters_once_witness:
  "controller \<lparr>controller = 0, controllerRef = Some 0\<rparr> \<in>
     set (sseClients (run example_render (snd (handleSSE init_state))
       [Request ''u1'' 1000 \<lparr>http_method = ''GET'', pathname = ''/events'', json = Inl SyntaxError\<rparr>,
        Disconnect \<lparr>controller = 1, controllerRef = Some 1\<rparr>])) \<and>
   controller \<lparr>controller = 0, controllerRef = Some 0\<rparr> \<notin>
     set (sseClients (stream_cancel \<lparr>controller = 0, controllerRef = Some 0\<rparr>
       (run example_render (snd (handleSSE init_state))
         [Request ''u1'' 1000 \<lparr>http_method = ''GET'', pathname = ''/events'', json = Inl SyntaxError\<rparr>,
          Disconnect \<lparr>controller = 1, controllerRef = Some 1\<rparr>]))) \<and>
   controller \<lparr>controller = 0, controllerRef = Some 0\<rparr> \<notin>
     set (sseClients (run example_render (stream_cancel \<lparr>controller = 0, controllerRef = Some 0\<rparr>
       (run example_render (snd (handleSSE init_state))
         [Request ''u1'' 1000 \<lparr>http_method = ''GET'', pathname = ''/events'', json = Inl SyntaxError\<rparr>,
          Disconnect \<lparr>controller = 1, controllerRef = Some 1\<rparr>]))
       [Request ''u2'' 1001 \<lparr>http_method = ''GET'', pathname = ''/events'', json = Inl SyntaxError\<rparr>,
        Request ''u3'' 1002 (post_submit sketch_body)])) \<and>
   stream_cancel \<lparr>controller = 0, controllerRef = Some 0\<rparr>
     (run example_render (stream_cancel \<lparr>controller = 0, controllerRef = Some 0\<rparr>
       (run example_render (snd (handleSSE init_state))
         [Request ''u1'' 1000 \<lparr>http_method = ''GET'', pathname = ''/events'', json = Inl SyntaxError\<rparr>,
          Disconnect \<lparr>controller = 1, controllerRef = Some 1\<rparr>]))
       [Request ''u2'' 1001 \<lparr>http_method = ''GET'', pathname = ''/events'', json = Inl SyntaxError\<rparr>,
        Request ''u3'' 1002 (post_submit sketch_body)]) =
   run example_render (stream_cancel \<lparr>controller = 0, controllerRef = Some 0\<rparr>
       (run example_render (snd (handleSSE init_state))
         [Request ''u1'' 1000 \<lparr>http_method = ''GET'', pathname = ''/events'', json = Inl SyntaxError\<rparr>,
          Disconnect \<lparr>controller = 1, controllerRef = Some 1\<rparr>]))
       [Request ''u2'' 1001 \<lparr>http_method = ''GET'', pathname = ''/events'', json = Inl SyntaxError\<rparr>,
        Request ''u3'' 1002 (post_submit sketch_body)]"
  by (rule disconnect_unregisters_once [where s = init_state and r = "fst (handleSSE init_state)"])
     (simp_all add: handleSSE_def start_def Let_def init_state_def)


section \<open>Static files\<close>

text \<open>
  C9. A request whose path starts with \<^verbatim>\<open>/static/\<close> is answered from the file
  \<^verbatim>\<open>"." + pathname\<close>: when the file exists, 200 with its bytes and a
  \<^verbatim>\<open>Content-Type\<close> read off the extension (\<^verbatim>\<open>text/css\<close> for
  \<^verbatim>\<open>.css\<close>, \<^verbatim>\<open>text/plain\<close> for every other); when it does not, 404.
\<close>

theorem static_file_served:
  assumes "startsWith (pathname req) ''/static/''"
  shows "handler render uuid now req s =
           ((case files s (''.'' @ pathname req) of
               Some file \<Rightarrow>
                 \<lparr>status = 200,
                  headers = [(''Content-Type'',
                              if endsWith (pathname req) ''.css'' then ''text/css'' else ''text/plain'')],
                  body = File file\<rparr>
             | None \<Rightarrow> \<lparr>status = 404, headers = [], body = Text ''Not Found''\<rparr>), s)"
proof -
  have "pathname req \<noteq> ''/submit''" "pathname req \<noteq> ''/sketches''" "pathname req \<noteq> ''/events''"
    using assms by (auto simp add: startsWith_def)
  then show ?thesis
    using assms by (simp add: handler_def serveStatic_def not_found_def Let_def split: option.splits)
qed

theorem static_file_served_witness:
  "handler example_render ''u1'' 1000
      \<lparr>http_method = ''GET'', pathname = ''/static/style.css'', json = Inl SyntaxError\<rparr>
      (init_state\<lparr>files := [''./static/style.css'' \<mapsto> [0x62, 0x7B, 0x7D]]\<rparr>) =
     (\<lparr>status = 200, headers = [(''Content-Type'', ''text/css'')], body = File [0x62, 0x7B, 0x7D]\<rparr>,
      init_state\<lparr>files := [''./static/style.css'' \<mapsto> [0x62, 0x7B, 0x7D]]\<rparr>) \<and>
   fst (handler example_render ''u1'' 1000
      \<lparr>http_method = ''GET'', pathname = ''/static/app.js'', json = Inl SyntaxError\<rparr>
      (init_state\<lparr>files := [''./static/style.css'' \<mapsto> [0x62, 0x7B, 0x7D]]\<rparr>)) =
     \<lparr>status = 404, headers = [], body = Text ''Not Found''\<rparr>"
  using static_file_served [where req = "\<lparr>http_method = ''GET'', pathname = ''/static/style.css'', json = Inl SyntaxError\<rparr>"
      and s = "init_state\<lparr>files := [''./static/style.css'' \<mapsto> [0x62, 0x7B, 0x7D]]\<rparr>"
      and render = example_render and uuid = "''u1''" and now = 1000]
    static_file_served [where req = "\<lparr>http_method = ''GET'', pathname = ''/static/app.js'', json = Inl SyntaxError\<rparr>"
      and s = "init_state\<lparr>files := [''./static/style.css'' \<mapsto> [0x62, 0x7B, 0x7D]]\<rparr>"
      and render = example_render and uuid = "''u1''" and now = 1000]
  by (simp add: startsWith_def endsWith_def init_state_def)

end
